theory Spec2Isabelle
  imports Main "HOL-Library.Word"
begin

section \<open>The run-time values the container handles\<close>

text \<open>
  The container stores and assigns values of Go's empty interface type and inspects them
  through the reflection library. The fragment of Go's types modelled here: three
  predeclared scalar types, slices (the unhashable kind), pointers, struct types (defined
  types, identified by their name) and interface types (given by the names of their
  methods). A value of type \<open>reflect.Type\<close> is a \<open>gtype option\<close>: \<open>None\<close> is the nil
  \<open>Type\<close> that \<open>reflect.TypeOf(nil)\<close> returns.
\<close>

datatype gtype =
    TBool
  | TInt
  | TString
  | TSlice gtype
  | TPtr gtype
  | TStruct string
  | TInterface "string list"

datatype kind = KBool | KInt | KString | KSlice | KPtr | KStruct | KInterface

fun Kind :: "gtype \<Rightarrow> kind" where
  "Kind TBool = KBool"
| "Kind TInt = KInt"
| "Kind TString = KString"
| "Kind (TSlice _) = KSlice"
| "Kind (TPtr _) = KPtr"
| "Kind (TStruct _) = KStruct"
| "Kind (TInterface _) = KInterface"

text \<open>
  \<open>reflect.StructField\<close>, as far as the container reads it: the field's name, its declared
  type, the value that \<open>Tag.Get("summer")\<close> returns for it (the empty string when the
  field has no such tag) and whether the field is exported (\<open>PkgPath == ""\<close>).
\<close>

datatype StructField =
  StructField (sfName: string) (sfType: gtype) (sfTag: string) (sfExported: bool)

text \<open>
  An interface value. \<open>VNil\<close> is the nil interface. A pointer carries its element type and
  either the address of the object it points to or \<open>None\<close> for a nil pointer, so two
  pointers are equal exactly when they point to the same object. A struct value carries
  its fields in declaration order, each with its description.
\<close>

datatype gval =
    VNil
  | VBool bool
  | VInt "64 word"
  | VString string
  | VSlice gtype "gval list"
  | VPtr gtype "nat option"
  | VStruct string "(StructField \<times> gval) list"

type_synonym object = "(StructField \<times> gval) list"

fun TypeOf :: "gval \<Rightarrow> gtype option" where
  "TypeOf VNil = None"
| "TypeOf (VBool _) = Some TBool"
| "TypeOf (VInt _) = Some TInt"
| "TypeOf (VString _) = Some TString"
| "TypeOf (VSlice t _) = Some (TSlice t)"
| "TypeOf (VPtr t _) = Some (TPtr t)"
| "TypeOf (VStruct n _) = Some (TStruct n)"

text \<open>
  Whether a value can be a key of a Go map with interface keys: hashing a slice, or a
  struct that holds one, panics at run time.
\<close>

fun hashable :: "gval \<Rightarrow> bool" where
  "hashable (VSlice _ _) = False"
| "hashable (VStruct _ fs) = (\<forall>f \<in> set fs. hashable (snd f))"
| "hashable _ = True"

text \<open>
  \<open>Type.AssignableTo\<close> on this fragment, for a source type that is the dynamic type of an
  interface value: the types are identical, or the destination is an interface type whose
  methods the source type has. The first argument gives each type's method set.
\<close>

fun AssignableTo :: "(gtype \<Rightarrow> string list) \<Rightarrow> gtype \<Rightarrow> gtype \<Rightarrow> bool" where
  "AssignableTo ms vt (TInterface ns) = (vt = TInterface ns \<or> set ns \<subseteq> set (ms vt))"
| "AssignableTo ms vt ft = (vt = ft)"

section \<open>Outcomes\<close>

text \<open>
  A call either panics (\<open>Inl\<close>) or returns (\<open>Inr\<close>); a returned Go \<open>error\<close> is an
  \<open>error option\<close>, \<open>None\<close> for nil. The errors are the three messages the package builds;
  the panics are those of the reflection library and of the run time that the package's
  calls can raise. A panic carries no world: what a call had written before it panicked
  is not part of the model.
\<close>

datatype error =
    ErrNotPointerToStruct
  | ErrMissingDependency string gtype string
  | ErrMissingAutoinjected gtype string gtype

datatype panic =
    NilTypeKind
  | UnhashableKey
  | ElemOfNonPointer
  | TypeOfZeroValue
  | NumFieldOfNonStruct
  | SetZeroValue
  | SetNotAssignable

section \<open>The set of instances pending injection\<close>

record interfaceSet =
  set' :: "gval \<rightharpoonup> bool"

definition newInterfaceSet :: interfaceSet where
  "newInterfaceSet = \<lparr>set' = Map.empty\<rparr>"

definition interfaceSet_Add :: "gval \<Rightarrow> interfaceSet \<Rightarrow> panic + (bool \<times> interfaceSet)" where
  "interfaceSet_Add target s =
     (if \<not> hashable target then Inl UnhashableKey
      else let present = (set' s target \<noteq> None)
           in Inr (\<not> present, s\<lparr>set' := (set' s)(target \<mapsto> True)\<rparr>))"

text \<open>
  Go leaves the order in which \<open>range\<close> visits a map unspecified, and it may differ from
  one loop to the next. \<open>EachElement\<close> therefore takes the order of the visit as an
  argument; \<open>iteration_order\<close> says that a list is a possible order for a set, namely an
  enumeration of its keys without repetition. The callback is a closure: the variables it
  captures are the state it transforms.
\<close>

definition iteration_order :: "interfaceSet \<Rightarrow> gval list \<Rightarrow> bool" where
  "iteration_order s keys = (distinct keys \<and> set keys = dom (set' s))"

fun EachElement :: "gval list \<Rightarrow> (gval \<Rightarrow> 'a \<Rightarrow> panic + 'a) \<Rightarrow> 'a \<Rightarrow> panic + 'a" where
  "EachElement [] callback st = Inr st"
| "EachElement (key # keys) callback st =
     (case callback key st of
        Inl p \<Rightarrow> Inl p
      | Inr st' \<Rightarrow> EachElement keys callback st')"

section \<open>The tag of a field\<close>

definition summerTag :: string where
  "summerTag = ''summer''"

definition tagAutoInject :: string where
  "tagAutoInject = ''auto''"

record fieldTag =
  dependencyName :: string
  autoInject :: bool

text \<open>\<open>strings.Split\<close> for a separator of one byte: every separator ends a component.\<close>

fun Split :: "string \<Rightarrow> char \<Rightarrow> string list" where
  "Split [] sep = [[]]"
| "Split (c # cs) sep =
     (if c = sep then [] # Split cs sep
      else (case Split cs sep of
              [] \<Rightarrow> [[c]]
            | x # xs \<Rightarrow> (c # x) # xs))"

definition parseFieldTag :: "string \<Rightarrow> fieldTag option" where
  "parseFieldTag rawTag =
     (if rawTag = '''' then None
      else let components = Split rawTag (CHR '','');
               shouldAutoInject =
                 (if length components > 1 then components ! 1 = tagAutoInject else False)
           in Some \<lparr>dependencyName = components ! 0, autoInject = shouldAutoInject\<rparr>)"

section \<open>The container\<close>

record Container =
  dependenciesByName :: "string \<rightharpoonup> gval"
  dependenciesByType :: "gtype option \<rightharpoonup> gval"
  possibleInjectionSet :: interfaceSet

definition NewContainer :: Container where
  "NewContainer =
     \<lparr>dependenciesByName = Map.empty,
      dependenciesByType = Map.empty,
      possibleInjectionSet = newInterfaceSet\<rparr>"

text \<open>
  What a call can observe or change besides its result: the container, the objects that
  pointers point to (every address holds an object; one that was never allocated holds
  an object without fields), and the sequence of effects on the outside so far, namely
  each assignment to a field (address, index, value) and each call of a target's
  \<open>PostInjectionCallback\<close>. The callback's body belongs to the caller's program and is
  not modelled beyond the fact that it was called. \<open>methodSet\<close> is the program's
  declaration of each type's methods; no call changes it.
\<close>

datatype event = FieldSet nat nat gval | HookCalled gval

record world =
  container :: Container
  heap :: "nat \<Rightarrow> object"
  events :: "event list"
  methodSet :: "gtype \<Rightarrow> string list"

text \<open>\<open>target.(PostInjector)\<close>: the dynamic type of the target has the method.\<close>

definition isPostInjector :: "world \<Rightarrow> gval \<Rightarrow> bool" where
  "isPostInjector w target =
     (case TypeOf target of
        None \<Rightarrow> False
      | Some t \<Rightarrow> ''PostInjectionCallback'' \<in> set (methodSet w t))"

definition performPostInjectionHook :: "gval \<Rightarrow> world \<Rightarrow> world" where
  "performPostInjectionHook target w =
     (if isPostInjector w target then w\<lparr>events := events w @ [HookCalled target]\<rparr> else w)"

text \<open>Calling \<open>Kind\<close> on the nil \<open>Type\<close> is a nil dereference.\<close>

definition getDereferencedType :: "gval \<Rightarrow> panic + gtype" where
  "getDereferencedType target =
     (case TypeOf target of
        None \<Rightarrow> Inl NilTypeKind
      | Some targetType \<Rightarrow>
          (case targetType of
             TPtr elem \<Rightarrow> Inr elem
           | _ \<Rightarrow> Inr targetType))"

definition isPointerToStruct :: "gval \<Rightarrow> panic + bool" where
  "isPointerToStruct target =
     (case getDereferencedType target of
        Inl p \<Rightarrow> Inl p
      | Inr targetType \<Rightarrow> Inr (Kind targetType = KStruct))"

definition Add :: "gval \<Rightarrow> string \<Rightarrow> world \<Rightarrow> panic + world" where
  "Add target name w =
     (let c = container w;
          c1 = (if name \<noteq> ''''
                then c\<lparr>dependenciesByName := (dependenciesByName c)(name \<mapsto> target)\<rparr>
                else c);
          c2 = c1\<lparr>dependenciesByType := (dependenciesByType c1)(TypeOf target \<mapsto> target)\<rparr>
      in case isPointerToStruct target of
           Inl p \<Rightarrow> Inl p
         | Inr ok \<Rightarrow>
             if ok
             then (case interfaceSet_Add target (possibleInjectionSet c2) of
                     Inl p \<Rightarrow> Inl p
                   | Inr (_, s) \<Rightarrow> Inr (w\<lparr>container := c2\<lparr>possibleInjectionSet := s\<rparr>\<rparr>))
             else Inr (w\<lparr>container := c2\<rparr>))"

definition Get :: "string \<Rightarrow> world \<Rightarrow> (gval \<times> bool) \<times> world" where
  "Get name w =
     (case dependenciesByName (container w) name of
        Some dependency \<Rightarrow> ((dependency, True), w)
      | None \<Rightarrow> ((VNil, False), w))"

section \<open>Injection\<close>

text \<open>
  The \<open>field\<close> of an injection point is a handle on a field of an object in memory: the
  object's address and the field's index. Such a handle can be set when the field is
  exported, since it was reached through a pointer.
\<close>

record injectionPoint =
  elementType :: gtype
  field :: "nat \<times> nat"
  typeField :: StructField

definition CanSet :: "injectionPoint \<Rightarrow> bool" where
  "CanSet p = sfExported (typeField p)"

text \<open>
  \<open>p.field.Set(reflect.ValueOf(dependency))\<close>: panics on the zero \<open>Value\<close> (that of a nil
  interface) and on a value that is not assignable to the field's type; otherwise it
  stores the value in the field, which keeps its description.
\<close>

definition store :: "nat \<times> nat \<Rightarrow> gval \<Rightarrow> world \<Rightarrow> world" where
  "store fld x w =
     (case fld of
        (a, i) \<Rightarrow>
          w\<lparr>heap := (heap w)(a := (heap w a)[i := (fst (heap w a ! i), x)]),
            events := events w @ [FieldSet a i x]\<rparr>)"

definition Set :: "injectionPoint \<Rightarrow> gval \<Rightarrow> world \<Rightarrow> panic + world" where
  "Set p x w =
     (case TypeOf x of
        None \<Rightarrow> Inl SetZeroValue
      | Some vt \<Rightarrow>
          if AssignableTo (methodSet w) vt (sfType (typeField p))
          then Inr (store (field p) x w)
          else Inl SetNotAssignable)"

definition performNamedInjection ::
  "injectionPoint \<Rightarrow> string \<Rightarrow> world \<Rightarrow> panic + (error option \<times> world)" where
  "performNamedInjection p name w =
     (case dependenciesByName (container w) name of
        Some dependency \<Rightarrow>
          (case Set p dependency w of
             Inl pn \<Rightarrow> Inl pn
           | Inr w' \<Rightarrow> Inr (None, w'))
      | None \<Rightarrow>
          Inr (Some (ErrMissingDependency name (elementType p)
                       (sfName (typeField p))), w))"

definition performAutoInjection ::
  "injectionPoint \<Rightarrow> world \<Rightarrow> panic + (error option \<times> world)" where
  "performAutoInjection p w =
     (let matchingType = sfType (typeField p)
      in case dependenciesByType (container w) (Some matchingType) of
           Some dependency \<Rightarrow>
             (case Set p dependency w of
                Inl pn \<Rightarrow> Inl pn
              | Inr w' \<Rightarrow> Inr (None, w'))
         | None \<Rightarrow>
             Inr (Some (ErrMissingAutoinjected (elementType p) (sfName (typeField p))
                          matchingType), w))"

definition performInjection ::
  "injectionPoint \<Rightarrow> world \<Rightarrow> panic + (error option \<times> world)" where
  "performInjection p w =
     (case parseFieldTag (sfTag (typeField p)) of
        None \<Rightarrow> Inr (None, w)
      | Some tag \<Rightarrow>
          if CanSet p
          then (if \<not> autoInject tag
                then performNamedInjection p (dependencyName tag) w
                else performAutoInjection p w)
          else Inr (None, w))"

text \<open>
  The loop of \<open>iterateFields\<close>. The number of fields is fixed by the struct type, so it is
  read once, before the loop.
\<close>

function iterateFields_loop ::
  "(injectionPoint \<Rightarrow> world \<Rightarrow> panic + (error option \<times> world)) \<Rightarrow> gtype \<Rightarrow> nat \<Rightarrow> nat \<Rightarrow>
   nat \<Rightarrow> world \<Rightarrow> panic + (error option \<times> world)" where
  "iterateFields_loop callback elemType a n index w =
     (if index < n
      then (let ip = \<lparr>elementType = elemType, field = (a, index),
                      typeField = fst (heap w a ! index)\<rparr>
            in case callback ip w of
                 Inl p \<Rightarrow> Inl p
               | Inr (Some err, w') \<Rightarrow> Inr (Some err, w')
               | Inr (None, w') \<Rightarrow> iterateFields_loop callback elemType a n (index + 1) w')
      else Inr (None, w))"
  by pat_completeness auto
termination
  by (relation "measure (\<lambda>(callback, elemType, a, n, index, w). n - index)") auto

declare iterateFields_loop.simps [simp del]

text \<open>
  \<open>reflect.ValueOf(target).Elem()\<close> panics unless the target is a pointer; on a nil
  pointer it gives the zero \<open>Value\<close>, whose \<open>Type\<close> panics; \<open>NumField\<close> panics on anything
  but a struct.
\<close>

definition iterateFields ::
  "gval \<Rightarrow> (injectionPoint \<Rightarrow> world \<Rightarrow> panic + (error option \<times> world)) \<Rightarrow> world \<Rightarrow>
   panic + (error option \<times> world)" where
  "iterateFields target callback w =
     (case target of
        VPtr elemType (Some a) \<Rightarrow>
          if Kind elemType = KStruct
          then iterateFields_loop callback elemType a (length (heap w a)) 0 w
          else Inl NumFieldOfNonStruct
      | VPtr elemType None \<Rightarrow> Inl TypeOfZeroValue
      | _ \<Rightarrow> Inl ElemOfNonPointer)"

definition realInjectInto :: "gval \<Rightarrow> bool \<Rightarrow> world \<Rightarrow> panic + (error option \<times> world)" where
  "realInjectInto target performHook w =
     (case isPointerToStruct target of
        Inl p \<Rightarrow> Inl p
      | Inr ok \<Rightarrow>
          if \<not> ok then Inr (Some ErrNotPointerToStruct, w)
          else (case iterateFields target performInjection w of
                  Inl p \<Rightarrow> Inl p
                | Inr (Some err, w') \<Rightarrow> Inr (Some err, w')
                | Inr (None, w') \<Rightarrow>
                    Inr (None, if performHook then performPostInjectionHook target w'
                               else w')))"

definition InjectInto :: "gval \<Rightarrow> world \<Rightarrow> panic + (error option \<times> world)" where
  "InjectInto target w = realInjectInto target True w"

text \<open>
  The two loops of \<open>PerformInjections\<close> may visit the set in different orders. The first
  callback captures \<open>err\<close>.
\<close>

definition PerformInjections ::
  "gval list \<Rightarrow> gval list \<Rightarrow> world \<Rightarrow> panic + (error option \<times> world)" where
  "PerformInjections order1 order2 w =
     (case EachElement order1
             (\<lambda>key (err, w1).
                if err = None
                then (case realInjectInto key False w1 of
                        Inl p \<Rightarrow> Inl p
                      | Inr (err', w2) \<Rightarrow> Inr (err', w2))
                else Inr (err, w1))
             (None, w) of
        Inl p \<Rightarrow> Inl p
      | Inr (err, w1) \<Rightarrow>
          if err = None
          then (case EachElement order2
                       (\<lambda>key w2. Inr (performPostInjectionHook key w2)) w1 of
                  Inl p \<Rightarrow> Inl p
                | Inr w2 \<Rightarrow> Inr (err, w2))
          else Inr (err, w1))"

section \<open>Definitions used to state the properties\<close>

text \<open>
  The tag grammar as the specification words it: the string is split into at most two
  parts at the first separator; the first part is the name, and the second part, when
  there is one, is compared with the keyword.
\<close>

definition splitAtMostTwo :: "string \<Rightarrow> char \<Rightarrow> string list" where
  "splitAtMostTwo s sep =
     (if sep \<in> set s
      then [takeWhile (\<lambda>c. c \<noteq> sep) s, tl (dropWhile (\<lambda>c. c \<noteq> sep) s)]
      else [s])"

definition parseFieldTag_spec :: "string \<Rightarrow> fieldTag option" where
  "parseFieldTag_spec rawTag =
     (if rawTag = '''' then None
      else let parts = splitAtMostTwo rawTag (CHR '','')
           in Some \<lparr>dependencyName = parts ! 0,
                    autoInject = (length parts > 1 \<and> parts ! 1 = ''auto'')\<rparr>)"

text \<open>A caller registering a list of dependencies, one \<open>Add\<close> after the other.\<close>

fun AddAll :: "(gval \<times> string) list \<Rightarrow> world \<Rightarrow> panic + world" where
  "AddAll [] w = Inr w"
| "AddAll ((target, name) # rest) w =
     (case Add target name w of
        Inl p \<Rightarrow> Inl p
      | Inr w' \<Rightarrow> AddAll rest w')"

text \<open>A program without objects or methods, holding a fresh container.\<close>

definition emptyWorld :: world where
  "emptyWorld =
     \<lparr>container = NewContainer, heap = (\<lambda>_. []), events = [], methodSet = (\<lambda>_. [])\<rparr>"

text \<open>Worlds and values that the closed instances of the theorems below are about.\<close>

definition getExample :: world where
  "getExample =
     emptyWorld
       \<lparr>container :=
          \<lparr>dependenciesByName = [''nameHere'' \<mapsto> VString ''value''],
           dependenciesByType = [Some TString \<mapsto> VString ''value''],
           possibleInjectionSet = newInterfaceSet\<rparr>\<rparr>"

definition autoField :: StructField where
  "autoField = StructField ''AutoString'' TString '',auto'' True"

definition autoStart :: world where
  "autoStart = emptyWorld\<lparr>heap := (\<lambda>_. [])(1 := [(autoField, VString '''')])\<rparr>"

definition autoExample :: world where
  "autoExample =
     autoStart
       \<lparr>container :=
          \<lparr>dependenciesByName = Map.empty,
           dependenciesByType = [Some TString \<mapsto> VString ''second''],
           possibleInjectionSet = newInterfaceSet\<rparr>\<rparr>"

definition autoPoint :: injectionPoint where
  "autoPoint =
     \<lparr>elementType = TStruct ''simpleStruct'', field = (1, 0), typeField = autoField\<rparr>"

section \<open>Definitions used in the proofs about injection\<close>

text \<open>
  What \<open>performInjection\<close> does to a field is decided by the field's description, the
  container and the method sets alone: nothing (no tag, or a field that cannot be set),
  an assignment of the dependency found, one of the two errors, or a panic of \<open>Set\<close>.
  \<open>enact\<close> carries a decision out at an injection point; \<open>performInjection_decide\<close>
  below proves that the two together are \<open>performInjection\<close>.
\<close>

datatype decision =
    DSkip
  | DAssign gval
  | DMissingName string
  | DMissingType gtype
  | DCrash panic

definition settable :: "(gtype \<Rightarrow> string list) \<Rightarrow> gtype \<Rightarrow> gval \<Rightarrow> decision" where
  "settable ms ft x =
     (case TypeOf x of
        None \<Rightarrow> DCrash SetZeroValue
      | Some vt \<Rightarrow> if AssignableTo ms vt ft then DAssign x else DCrash SetNotAssignable)"

definition decide :: "Container \<Rightarrow> (gtype \<Rightarrow> string list) \<Rightarrow> StructField \<Rightarrow> decision" where
  "decide c ms sf =
     (case parseFieldTag (sfTag sf) of
        None \<Rightarrow> DSkip
      | Some tag \<Rightarrow>
          if \<not> sfExported sf then DSkip
          else if \<not> autoInject tag
          then (case dependenciesByName c (dependencyName tag) of
                  None \<Rightarrow> DMissingName (dependencyName tag)
                | Some x \<Rightarrow> settable ms (sfType sf) x)
          else (case dependenciesByType c (Some (sfType sf)) of
                  None \<Rightarrow> DMissingType (sfType sf)
                | Some x \<Rightarrow> settable ms (sfType sf) x))"

definition enact ::
  "decision \<Rightarrow> injectionPoint \<Rightarrow> world \<Rightarrow> panic + (error option \<times> world)" where
  "enact d p w =
     (case d of
        DSkip \<Rightarrow> Inr (None, w)
      | DAssign x \<Rightarrow> Inr (None, store (field p) x w)
      | DMissingName n \<Rightarrow>
          Inr (Some (ErrMissingDependency n (elementType p) (sfName (typeField p))), w)
      | DMissingType ty \<Rightarrow>
          Inr (Some (ErrMissingAutoinjected (elementType p) (sfName (typeField p)) ty), w)
      | DCrash pn \<Rightarrow> Inl pn)"

fun succeeds :: "decision \<Rightarrow> bool" where
  "succeeds DSkip = True"
| "succeeds (DAssign _) = True"
| "succeeds _ = False"

text \<open>The injection point that \<open>iterateFields\<close> builds for field \<open>i\<close> of an object.\<close>

definition pointAt :: "gtype \<Rightarrow> nat \<Rightarrow> object \<Rightarrow> nat \<Rightarrow> injectionPoint" where
  "pointAt t a obj i = \<lparr>elementType = t, field = (a, i), typeField = fst (obj ! i)\<rparr>"

text \<open>The decision for field \<open>i\<close> of the object at an address.\<close>

definition decisionAt :: "world \<Rightarrow> nat \<Rightarrow> nat \<Rightarrow> decision" where
  "decisionAt w a i = decide (container w) (methodSet w) (fst (heap w a ! i))"

text \<open>The world once the decisions for the first \<open>i\<close> fields of an object are carried out.\<close>

fun injected :: "nat \<Rightarrow> world \<Rightarrow> nat \<Rightarrow> world" where
  "injected a w 0 = w"
| "injected a w (Suc i) =
     (case decisionAt w a i of
        DAssign x \<Rightarrow> store (a, i) x (injected a w i)
      | _ \<Rightarrow> injected a w i)"

definition isFieldSet :: "nat \<Rightarrow> event \<Rightarrow> bool" where
  "isFieldSet a e = (case e of FieldSet b _ _ \<Rightarrow> b = a | HookCalled _ \<Rightarrow> False)"

definition isHook :: "event \<Rightarrow> bool" where
  "isHook e = (case e of FieldSet _ _ _ \<Rightarrow> False | HookCalled _ \<Rightarrow> True)"

text \<open>
  A world with two objects: at address 1 a struct whose pointer type has the callback,
  with an unexported untagged field and a field that names a registered dependency; at
  address 2 a struct whose second field names a dependency that is not registered.
\<close>

definition hookType :: gtype where
  "hookType = TStruct ''hookTestingStruct''"

definition simpleType :: gtype where
  "simpleType = TStruct ''simpleStruct''"

definition calledField :: StructField where
  "calledField = StructField ''called'' TBool '''' False"

definition depField :: StructField where
  "depField = StructField ''Dep'' TString ''HasIt'' True"

definition availableField :: StructField where
  "availableField = StructField ''AvailableString'' TString ''HasIt'' True"

definition unavailableField :: StructField where
  "unavailableField = StructField ''UnavailableString'' TString ''Missing'' True"

definition laterField :: StructField where
  "laterField = StructField ''Later'' TString ''HasIt'' True"

definition targetsWorld :: world where
  "targetsWorld =
     \<lparr>container =
        \<lparr>dependenciesByName = [''HasIt'' \<mapsto> VString ''ok''],
         dependenciesByType = [Some TString \<mapsto> VString ''ok''],
         possibleInjectionSet = newInterfaceSet\<rparr>,
      heap = (\<lambda>_. [])
        (1 := [(calledField, VBool False), (depField, VString '''')],
         2 := [(availableField, VString ''''), (unavailableField, VString ''''),
               (laterField, VString '''')]),
      events = [],
      methodSet = (\<lambda>_. [])(TPtr hookType := [''PostInjectionCallback''])\<rparr>"

text \<open>
  \<open>partly_injected W w\<close>: the world \<open>w\<close> is \<open>W\<close> after some assignments of injection and no
  callback: same container, same method sets, same description of every field, and every
  field holds either what it held in \<open>W\<close> or the dependency decided for it.
  \<open>settled W a w\<close>: the object at \<open>a\<close> is as after a complete injection into it from \<open>W\<close>.
\<close>

definition partly_injected :: "world \<Rightarrow> world \<Rightarrow> bool" where
  "partly_injected W w =
     (container w = container W \<and> methodSet w = methodSet W \<and>
      (\<forall>b. map fst (heap w b) = map fst (heap W b)) \<and>
      (\<forall>b j. j < length (heap W b) \<longrightarrow>
         heap w b ! j = heap W b ! j \<or>
         (\<exists>x. decisionAt W b j = DAssign x \<and> heap w b ! j = (fst (heap W b ! j), x))) \<and>
      (\<exists>evs. events w = events W @ evs \<and> (\<forall>e \<in> set evs. \<not> isHook e)))"

definition settled :: "world \<Rightarrow> nat \<Rightarrow> world \<Rightarrow> bool" where
  "settled W a w = (heap w a = heap (injected a W (length (heap W a))) a)"

text \<open>The callback of the first loop of \<open>PerformInjections\<close>, with the \<open>err\<close> it captures.\<close>

definition injectKey ::
  "gval \<Rightarrow> error option \<times> world \<Rightarrow> panic + (error option \<times> world)" where
  "injectKey key st =
     (case st of
        (err, w1) \<Rightarrow>
          if err = None
          then (case realInjectInto key False w1 of
                  Inl p \<Rightarrow> Inl p
                | Inr (err', w2) \<Rightarrow> Inr (err', w2))
          else Inr (err, w1))"

text \<open>
  Two structs that name each other, a struct that names a dependency nobody registered,
  and a struct with the callback; then the world after registering the first two and the
  last, and the world after registering all four.
\<close>

definition oneType :: gtype where
  "oneType = TStruct ''circularStructOne''"

definition twoType :: gtype where
  "twoType = TStruct ''circularStructTwo''"

definition missingType :: gtype where
  "missingType = TStruct ''missingStruct''"

definition sOne :: gval where
  "sOne = VPtr oneType (Some 1)"

definition sTwo :: gval where
  "sTwo = VPtr twoType (Some 2)"

definition sMissing :: gval where
  "sMissing = VPtr missingType (Some 3)"

definition sHook :: gval where
  "sHook = VPtr hookType (Some 4)"

definition circularStart :: world where
  "circularStart =
     \<lparr>container = NewContainer,
      heap = (\<lambda>_. [])
        (1 := [(StructField ''Two'' (TPtr twoType) ''2'' True, VPtr twoType None)],
         2 := [(StructField ''One'' (TPtr oneType) ''1'' True, VPtr oneType None)],
         3 := [(StructField ''Missing'' TString ''Missing'' True, VString '''')],
         4 := [(calledField, VBool False)]),
      events = [],
      methodSet = (\<lambda>_. [])(TPtr hookType := [''PostInjectionCallback''])\<rparr>"

definition circularWorld :: world where
  "circularWorld =
     circularStart
       \<lparr>container :=
          \<lparr>dependenciesByName = [''1'' \<mapsto> sOne, ''2'' \<mapsto> sTwo],
           dependenciesByType =
             [Some (TPtr oneType) \<mapsto> sOne, Some (TPtr twoType) \<mapsto> sTwo,
              Some (TPtr hookType) \<mapsto> sHook],
           possibleInjectionSet =
             \<lparr>set' = [sOne \<mapsto> True, sTwo \<mapsto> True, sHook \<mapsto> True]\<rparr>\<rparr>\<rparr>"

definition failingWorld :: world where
  "failingWorld =
     circularStart
       \<lparr>container :=
          \<lparr>dependenciesByName = [''1'' \<mapsto> sOne, ''2'' \<mapsto> sTwo],
           dependenciesByType =
             [Some (TPtr oneType) \<mapsto> sOne, Some (TPtr twoType) \<mapsto> sTwo,
              Some (TPtr missingType) \<mapsto> sMissing, Some (TPtr hookType) \<mapsto> sHook],
           possibleInjectionSet =
             \<lparr>set' = [sOne \<mapsto> True, sTwo \<mapsto> True, sMissing \<mapsto> True,
                      sHook \<mapsto> True]\<rparr>\<rparr>\<rparr>"

section \<open>Properties\<close>

subsection \<open>Parsing a tag\<close>

lemma Split_unfold:
  "Split s sep =
     takeWhile (\<lambda>c. c \<noteq> sep) s #
       (if sep \<in> set s then Split (tl (dropWhile (\<lambda>c. c \<noteq> sep) s)) sep else [])"
  by (induction s) auto

lemma Split_not_Nil: "Split s sep \<noteq> []"
  by (subst Split_unfold) simp

lemma hd_Split: "Split s sep ! 0 = takeWhile (\<lambda>c. c \<noteq> sep) s"
  by (subst Split_unfold) simp

lemma length_Split_gt_1: "(Suc 0 < length (Split s sep)) = (sep \<in> set s)"
  by (subst Split_unfold) (simp add: Split_not_Nil)

lemma second_Split:
  "sep \<in> set s \<Longrightarrow>
   Split s sep ! Suc 0 = takeWhile (\<lambda>c. c \<noteq> sep) (tl (dropWhile (\<lambda>c. c \<noteq> sep) s))"
  by (subst Split_unfold) (simp add: hd_Split)

text \<open>
  C6, as stated, fails: \<open>parseFieldTag\<close> splits at every separator, not into at most two
  parts, so on a tag with two separators whose second component is the keyword it
  requests automatic injection, where a split into at most two parts would compare
  \<open>auto,x\<close> with the keyword and request injection by name.
\<close>

theorem parseFieldTag_parts_counterexample:
  "parseFieldTag ''n,auto,x'' \<noteq> parseFieldTag_spec ''n,auto,x''"
  by (simp add: parseFieldTag_def parseFieldTag_spec_def splitAtMostTwo_def tagAutoInject_def)

text \<open>
  C6, amended: the empty string parses to no request; for any other string the
  dependency name is the text before the first separator (possibly empty, the whole
  string when there is no separator), and \<open>autoInject\<close> is true exactly when there is a
  separator and the text between the first separator and the next one (or the end of the
  string) is \<open>auto\<close>; whatever follows a second separator is ignored. In particular
  \<open>n\<close> and \<open>n,\<close> ask for \<open>n\<close> by name and \<open>,auto\<close> asks for automatic injection with an
  empty name. The result is a function of the string alone.
\<close>

theorem parseFieldTag_components:
  "parseFieldTag rawTag =
     (if rawTag = '''' then None
      else Some \<lparr>dependencyName = takeWhile (\<lambda>c. c \<noteq> CHR '','') rawTag,
                 autoInject =
                   (CHR '','' \<in> set rawTag \<and>
                    takeWhile (\<lambda>c. c \<noteq> CHR '','')
                      (tl (dropWhile (\<lambda>c. c \<noteq> CHR '','') rawTag)) = ''auto'')\<rparr>)
   \<and> parseFieldTag '''' = None
   \<and> parseFieldTag ''n'' = Some \<lparr>dependencyName = ''n'', autoInject = False\<rparr>
   \<and> parseFieldTag ''n,'' = Some \<lparr>dependencyName = ''n'', autoInject = False\<rparr>
   \<and> parseFieldTag '',auto'' = Some \<lparr>dependencyName = '''', autoInject = True\<rparr>"
proof -
  have general: "parseFieldTag rawTag =
     (if rawTag = '''' then None
      else Some \<lparr>dependencyName = takeWhile (\<lambda>c. c \<noteq> CHR '','') rawTag,
                 autoInject =
                   (CHR '','' \<in> set rawTag \<and>
                    takeWhile (\<lambda>c. c \<noteq> CHR '','')
                      (tl (dropWhile (\<lambda>c. c \<noteq> CHR '','') rawTag)) = ''auto'')\<rparr>)"
    by (auto simp: parseFieldTag_def Let_def hd_Split length_Split_gt_1 second_Split
        tagAutoInject_def)
  have "parseFieldTag '''' = None"
    and "parseFieldTag ''n'' = Some \<lparr>dependencyName = ''n'', autoInject = False\<rparr>"
    and "parseFieldTag ''n,'' = Some \<lparr>dependencyName = ''n'', autoInject = False\<rparr>"
    and "parseFieldTag '',auto'' = Some \<lparr>dependencyName = '''', autoInject = True\<rparr>"
    by (simp_all add: parseFieldTag_def tagAutoInject_def)
  with general show ?thesis by blast
qed

subsection \<open>Registration and lookup\<close>

lemmas Add_defs = Add_def Let_def isPointerToStruct_def getDereferencedType_def
  interfaceSet_Add_def

lemma Add_Inr:
  assumes "Add target name w = Inr w'"
  shows "dependenciesByName (container w') =
           (if name \<noteq> '''' then (dependenciesByName (container w))(name \<mapsto> target)
            else dependenciesByName (container w))"
    and "dependenciesByType (container w') =
           (dependenciesByType (container w))(TypeOf target \<mapsto> target)"
    and "heap w' = heap w" and "events w' = events w" and "methodSet w' = methodSet w"
  using assms
  by (auto simp: Add_def Let_def interfaceSet_Add_def split: sum.splits if_splits)

lemma AddAll_append:
  "AddAll (xs @ ys) w = (case AddAll xs w of Inl p \<Rightarrow> Inl p | Inr w' \<Rightarrow> AddAll ys w')"
  by (induction xs arbitrary: w) (auto split: sum.splits)

lemma AddAll_name_untouched:
  "AddAll xs w = Inr w' \<Longrightarrow> name \<notin> snd ` set xs \<Longrightarrow>
   dependenciesByName (container w') name = dependenciesByName (container w) name"
proof (induction xs arbitrary: w)
  case Nil
  then show ?case by simp
next
  case (Cons x xs)
  obtain t n where x: "x = (t, n)" by (cases x)
  from Cons.prems x obtain w1 where a: "Add t n w = Inr w1" and r: "AddAll xs w1 = Inr w'"
    by (auto split: sum.splits)
  from Cons.prems x have "n \<noteq> name" "name \<notin> snd ` set xs" by auto
  with Cons.IH [OF r] Add_Inr(1) [OF a] show ?case by simp
qed

lemma AddAll_type_untouched:
  "AddAll xs w = Inr w' \<Longrightarrow> \<forall>x \<in> set xs. TypeOf (fst x) \<noteq> ty \<Longrightarrow>
   dependenciesByType (container w') ty = dependenciesByType (container w) ty"
proof (induction xs arbitrary: w)
  case Nil
  then show ?case by simp
next
  case (Cons x xs)
  obtain t n where x: "x = (t, n)" by (cases x)
  from Cons.prems x obtain w1 where a: "Add t n w = Inr w1" and r: "AddAll xs w1 = Inr w'"
    by (auto split: sum.splits)
  from Cons.prems x have "TypeOf t \<noteq> ty" "\<forall>x \<in> set xs. TypeOf (fst x) \<noteq> ty" by auto
  with Cons.IH [OF r] Add_Inr(2) [OF a] show ?case by simp
qed

text \<open>
  C8: after any sequence of registrations that ran to completion, \<open>Get\<close> of a non-empty
  name returns the instance most recently registered under that name, with \<open>true\<close>; on a
  fresh container, \<open>Get\<close> of a name that no registration used returns the nil interface
  with \<open>false\<close>; \<open>Get\<close> changes nothing; and its result is decided by the name map alone:
  two worlds with the same name map give the same answer, whatever their type maps hold.
\<close>

theorem Get_returns_registered:
  assumes "AddAll xs w0 = Inr w"
  shows "(\<forall>ys dep zs.
            xs = ys @ (dep, name) # zs \<and> name \<noteq> '''' \<and> name \<notin> snd ` set zs \<longrightarrow>
            fst (Get name w) = (dep, True))
       \<and> (container w0 = NewContainer \<and> name \<notin> snd ` set xs \<longrightarrow>
            fst (Get name w) = (VNil, False))
       \<and> snd (Get name w) = w
       \<and> (\<forall>w'. dependenciesByName (container w') = dependenciesByName (container w) \<longrightarrow>
            fst (Get name w') = fst (Get name w))"
proof (intro conjI allI impI)
  fix ys dep zs
  assume h: "xs = ys @ (dep, name) # zs \<and> name \<noteq> '''' \<and> name \<notin> snd ` set zs"
  with assms obtain w1 w2 where "AddAll ys w0 = Inr w1" and a: "Add dep name w1 = Inr w2"
    and r: "AddAll zs w2 = Inr w"
    by (auto simp: AddAll_append split: sum.splits)
  from h Add_Inr(1) [OF a] have "dependenciesByName (container w2) name = Some dep"
    by simp
  with AddAll_name_untouched [OF r] h
  have "dependenciesByName (container w) name = Some dep" by simp
  then show "fst (Get name w) = (dep, True)" by (simp add: Get_def)
next
  assume h: "container w0 = NewContainer \<and> name \<notin> snd ` set xs"
  with AddAll_name_untouched [OF assms, of name]
  have "dependenciesByName (container w) name = None" by (simp add: NewContainer_def)
  then show "fst (Get name w) = (VNil, False)" by (simp add: Get_def)
next
  show "snd (Get name w) = w" by (simp add: Get_def split: option.splits)
next
  fix w' :: world
  assume "dependenciesByName (container w') = dependenciesByName (container w)"
  then show "fst (Get name w') = fst (Get name w)" by (simp add: Get_def split: option.splits)
qed

theorem Get_returns_registered_witness:
  "AddAll [(VString ''value'', ''nameHere'')] emptyWorld = Inr getExample
   \<and> fst (Get ''nameHere'' getExample) = (VString ''value'', True)
   \<and> fst (Get ''absent'' getExample) = (VNil, False)
   \<and> snd (Get ''nameHere'' getExample) = getExample"
proof -
  have h: "AddAll [(VString ''value'', ''nameHere'')] emptyWorld = Inr getExample"
    by (simp add: Add_defs getExample_def emptyWorld_def NewContainer_def)
  note t = Get_returns_registered [OF h]
  from t [of "''nameHere''", THEN conjunct1, rule_format, of "[]" "VString ''value''" "[]"]
  have a: "fst (Get ''nameHere'' getExample) = (VString ''value'', True)" by simp
  from t [of "''absent''", THEN conjunct2, THEN conjunct1]
  have b: "fst (Get ''absent'' getExample) = (VNil, False)" by (simp add: emptyWorld_def)
  from t [of "''nameHere''"] have c: "snd (Get ''nameHere'' getExample) = getExample"
    by blast
  from h a b c show ?thesis by blast
qed

text \<open>
  C5 does not hold of the code. A struct passed by value is not a pointer to a struct,
  yet \<open>isPointerToStruct\<close> accepts it, because \<open>getDereferencedType\<close> dereferences only
  when the target is a pointer; \<open>iterateFields\<close> then calls \<open>Elem\<close> on a struct \<open>Value\<close>,
  which panics, so \<open>InjectInto\<close> does not return the error that its own message words
  (\<open>something other than a pointer-to-struct\<close>).
\<close>

theorem InjectInto_struct_value_panics:
  "isPointerToStruct (VStruct n fs) = Inr True
   \<and> InjectInto (VStruct n fs) w = Inl ElemOfNonPointer"
  by (simp add: InjectInto_def realInjectInto_def isPointerToStruct_def
      getDereferencedType_def iterateFields_def)

text \<open>
  The part of C5 that the code does meet: a target that is neither a struct nor a pointer
  to one gets the error and the world is unchanged.
\<close>

lemma InjectInto_not_struct:
  "TypeOf target = Some t \<Longrightarrow> Kind t \<noteq> KStruct \<Longrightarrow> (\<forall>e. t = TPtr e \<longrightarrow> Kind e \<noteq> KStruct) \<Longrightarrow>
   InjectInto target w = Inr (Some ErrNotPointerToStruct, w)"
  by (auto simp: InjectInto_def realInjectInto_def isPointerToStruct_def
      getDereferencedType_def split: gtype.splits)

text \<open>
  C9 does not hold of the code. \<open>Add\<close> panics on the nil interface (\<open>Kind\<close> of the nil
  \<open>Type\<close>), and, since \<open>isPointerToStruct\<close> accepts a struct passed by value, it uses such
  a struct as a key of the set's map, which panics when the struct holds a slice.
\<close>

theorem Add_panics:
  "Add VNil name w = Inl NilTypeKind
   \<and> Add (VStruct ''T'' [(StructField ''Items'' (TSlice TInt) '''' True, VSlice TInt [])])
       name w = Inl UnhashableKey"
  by (simp add: Add_defs)

subsection \<open>Automatic injection\<close>

lemma AssignableTo_refl: "AssignableTo ms t t"
  by (cases t) simp_all

text \<open>
  C7: let a sequence of registrations have run to completion, and take any later world
  with that container. For a settable field whose tag asks for automatic injection,
  \<open>performInjection\<close> looks the field's declared type up in the type map: when instances
  of exactly that type were registered, the field is assigned the one registered last;
  when the container was fresh and no instance of exactly that type was registered, it
  fails with the missing-type error, which names the owning type, the field and the type
  searched for, and assigns nothing.
\<close>

theorem auto_injection_last_registered:
  assumes "AddAll xs w0 = Inr w"
    and "container w' = container w"
    and "parseFieldTag (sfTag (typeField p)) = Some tag" and "autoInject tag" and "CanSet p"
  shows "(\<forall>ys dep n zs.
            xs = ys @ (dep, n) # zs \<and> TypeOf dep = Some (sfType (typeField p)) \<and>
            (\<forall>z \<in> set zs. TypeOf (fst z) \<noteq> Some (sfType (typeField p))) \<longrightarrow>
            performInjection p w' = Inr (None, store (field p) dep w') \<and>
            (\<forall>a i. field p = (a, i) \<and> i < length (heap w' a) \<longrightarrow>
               snd (heap (store (field p) dep w') a ! i) = dep))
       \<and> (container w0 = NewContainer \<and>
          (\<forall>x \<in> set xs. TypeOf (fst x) \<noteq> Some (sfType (typeField p))) \<longrightarrow>
            performInjection p w' =
              Inr (Some (ErrMissingAutoinjected (elementType p) (sfName (typeField p))
                           (sfType (typeField p))), w'))"
proof (intro conjI allI impI)
  fix ys dep n zs
  assume h: "xs = ys @ (dep, n) # zs \<and> TypeOf dep = Some (sfType (typeField p)) \<and>
            (\<forall>z \<in> set zs. TypeOf (fst z) \<noteq> Some (sfType (typeField p)))"
  with assms(1) obtain w1 w2 where a: "Add dep n w1 = Inr w2" and r: "AddAll zs w2 = Inr w"
    by (auto simp: AddAll_append split: sum.splits)
  from h Add_Inr(2) [OF a]
  have "dependenciesByType (container w2) (Some (sfType (typeField p))) = Some dep"
    by simp
  with AddAll_type_untouched [OF r, of "Some (sfType (typeField p))"] h assms(2)
  have "dependenciesByType (container w') (Some (sfType (typeField p))) = Some dep"
    by simp
  with assms(3-5) h
  show "performInjection p w' = Inr (None, store (field p) dep w')"
    by (simp add: performInjection_def performAutoInjection_def Set_def AssignableTo_refl)
next
  fix ys dep n zs a i
  assume "field p = (a, i) \<and> i < length (heap w' a)"
  then show "snd (heap (store (field p) dep w') a ! i) = dep"
    by (simp add: store_def)
next
  assume h: "container w0 = NewContainer \<and>
          (\<forall>x \<in> set xs. TypeOf (fst x) \<noteq> Some (sfType (typeField p)))"
  with AddAll_type_untouched [OF assms(1), of "Some (sfType (typeField p))"] assms(2)
  have "dependenciesByType (container w') (Some (sfType (typeField p))) = None"
    by (simp add: NewContainer_def)
  with assms(3-5)
  show "performInjection p w' =
              Inr (Some (ErrMissingAutoinjected (elementType p) (sfName (typeField p))
                           (sfType (typeField p))), w')"
    by (simp add: performInjection_def performAutoInjection_def)
qed

theorem auto_injection_last_registered_witness:
  "AddAll [(VString ''first'', ''''), (VString ''second'', '''')] autoStart = Inr autoExample
   \<and> performInjection autoPoint autoExample =
       Inr (None, store (1, 0) (VString ''second'') autoExample)
   \<and> snd (heap (store (1, 0) (VString ''second'') autoExample) 1 ! 0) = VString ''second''
   \<and> performInjection (autoPoint\<lparr>typeField := StructField ''AutoInt'' TInt '',auto'' True\<rparr>)
         autoExample =
       Inr (Some (ErrMissingAutoinjected (TStruct ''simpleStruct'') ''AutoInt'' TInt),
            autoExample)"
proof -
  have h: "AddAll [(VString ''first'', ''''), (VString ''second'', '''')] autoStart =
             Inr autoExample"
    by (simp add: Add_defs autoExample_def autoStart_def emptyWorld_def NewContainer_def)
  have tag: "parseFieldTag '',auto'' = Some \<lparr>dependencyName = '''', autoInject = True\<rparr>"
    by (simp add: parseFieldTag_def tagAutoInject_def)
  have p1: "parseFieldTag (sfTag (typeField autoPoint)) =
              Some \<lparr>dependencyName = '''', autoInject = True\<rparr>"
    using tag by (simp add: autoPoint_def autoField_def)
  have c1: "CanSet autoPoint" by (simp add: CanSet_def autoPoint_def autoField_def)
  have ai: "autoInject \<lparr>dependencyName = [], autoInject = True\<rparr>" by simp
  note t1 = auto_injection_last_registered [OF h refl p1 ai c1]
  from t1 [THEN conjunct1, rule_format, of "[(VString ''first'', '''')]" "VString ''second''"
      "''''" "[]"]
  have a: "performInjection autoPoint autoExample =
             Inr (None, store (1, 0) (VString ''second'') autoExample)
           \<and> snd (heap (store (1, 0) (VString ''second'') autoExample) 1 ! 0) =
               VString ''second''"
    by (simp add: autoPoint_def autoField_def autoExample_def autoStart_def)
  have p2: "parseFieldTag
              (sfTag (typeField (autoPoint\<lparr>typeField :=
                 StructField ''AutoInt'' TInt '',auto'' True\<rparr>))) =
              Some \<lparr>dependencyName = '''', autoInject = True\<rparr>"
    using tag by simp
  have c2: "CanSet (autoPoint\<lparr>typeField := StructField ''AutoInt'' TInt '',auto'' True\<rparr>)"
    by (simp add: CanSet_def)
  note t2 = auto_injection_last_registered [OF h refl p2 ai c2]
  from t2 [THEN conjunct2]
  have b: "performInjection
             (autoPoint\<lparr>typeField := StructField ''AutoInt'' TInt '',auto'' True\<rparr>)
             autoExample =
           Inr (Some (ErrMissingAutoinjected (TStruct ''simpleStruct'') ''AutoInt'' TInt),
                autoExample)"
    by (simp add: autoPoint_def autoStart_def emptyWorld_def)
  from h a b show ?thesis by blast
qed

subsection \<open>The loop over the fields of a target\<close>

lemma performInjection_decide:
  "performInjection p w = enact (decide (container w) (methodSet w) (typeField p)) p w"
  by (simp add: performInjection_def decide_def enact_def performNamedInjection_def
      performAutoInjection_def Set_def CanSet_def settable_def Let_def
      split: option.splits)

lemma map_fst_update:
  "map fst (xs[i := (fst (xs ! i), x)]) = map fst xs"
  by (cases "i < length xs") (auto simp: list_eq_iff_nth_eq nth_list_update)

lemma store_simps [simp]:
  "container (store fld x w) = container w"
  "methodSet (store fld x w) = methodSet w"
  "events (store (a, i) x w) = events w @ [FieldSet a i x]"
  "b \<noteq> a \<Longrightarrow> heap (store (a, i) x w) b = heap w b"
  "length (heap (store fld x w) b) = length (heap w b)"
  "map fst (heap (store fld x w) b) = map fst (heap w b)"
  by (auto simp: store_def map_fst_update split: prod.splits)

lemma store_nth:
  "j < length (heap w a) \<Longrightarrow>
   heap (store (a, i) x w) a ! j = (if j = i then (fst (heap w a ! i), x) else heap w a ! j)"
  by (simp add: store_def)

lemma injected_simps [simp]:
  "container (injected a w i) = container w"
  "methodSet (injected a w i) = methodSet w"
  "b \<noteq> a \<Longrightarrow> heap (injected a w i) b = heap w b"
  "length (heap (injected a w i) b) = length (heap w b)"
  "map fst (heap (injected a w i) b) = map fst (heap w b)"
  by (induction i) (auto split: decision.splits)

lemma fst_nth_heap:
  assumes "map fst (heap w' a) = map fst (heap w a)" and "j < length (heap w a)"
  shows "fst (heap w' a ! j) = fst (heap w a ! j)"
proof -
  from assms have "length (heap w' a) = length (heap w a)"
    by (metis length_map)
  with assms show ?thesis by (metis nth_map)
qed

lemma injected_nth:
  "j < length (heap w a) \<Longrightarrow>
   heap (injected a w i) a ! j =
     (if j < i
      then (case decisionAt w a j of
              DAssign x \<Rightarrow> (fst (heap w a ! j), x)
            | _ \<Rightarrow> heap w a ! j)
      else heap w a ! j)"
proof (induction i)
  case 0
  then show ?case by simp
next
  case (Suc i)
  have f: "fst (heap (injected a w i) a ! i) = fst (heap w a ! i)" if "i < length (heap w a)"
    using that by (intro fst_nth_heap) simp_all
  show ?case
  proof (cases "decisionAt w a i")
    case (DAssign x)
    with Suc f show ?thesis
      by (auto simp: store_nth less_Suc_eq split: decision.splits)
  qed (use Suc in \<open>auto simp: less_Suc_eq split: decision.splits\<close>)
qed

lemma injected_events:
  "\<exists>evs. events (injected a w i) = events w @ evs \<and>
         (\<forall>e \<in> set evs. \<exists>j x. j < i \<and> e = FieldSet a j x \<and> decisionAt w a j = DAssign x)"
proof (induction i)
  case 0
  then show ?case by simp
next
  case (Suc i)
  then obtain evs where e: "events (injected a w i) = events w @ evs"
    and a: "\<forall>e \<in> set evs. \<exists>j x. j < i \<and> e = FieldSet a j x \<and> decisionAt w a j = DAssign x"
    by blast
  show ?case
  proof (cases "decisionAt w a i")
    case (DAssign x)
    with e a show ?thesis
      by (intro exI [of _ "evs @ [FieldSet a i x]"]) (auto simp: less_Suc_eq)
  qed (use e a in \<open>auto simp: less_Suc_eq intro!: exI [of _ evs]\<close>)
qed

lemma loop_from:
  assumes "index \<le> k" and "k \<le> n" and "n = length (heap w a)"
    and "\<forall>j. index \<le> j \<and> j < k \<longrightarrow> succeeds (decisionAt w a j)"
  shows "iterateFields_loop performInjection t a n index (injected a w index) =
           (if k < n
            then iterateFields_loop performInjection t a n k (injected a w k)
            else Inr (None, injected a w n))"
  using assms
proof (induction "k - index" arbitrary: index)
  case 0
  then have eq: "index = k" by simp
  show ?case
  proof (cases "k < n")
    case True
    with eq show ?thesis by simp
  next
    case False
    with 0 eq have "index = n" by simp
    then show ?thesis using False eq
      by (subst iterateFields_loop.simps) simp
  qed
next
  case (Suc d)
  then have lt: "index < k" "index < n" by auto
  have s: "succeeds (decisionAt w a index)" using Suc.prems lt by auto
  have f: "fst (heap (injected a w index) a ! index) = fst (heap w a ! index)"
    using lt Suc.prems by (intro fst_nth_heap) simp_all
  have step: "performInjection
                \<lparr>elementType = t, field = (a, index),
                 typeField = fst (heap (injected a w index) a ! index)\<rparr>
                (injected a w index) = Inr (None, injected a w (Suc index))"
    using s f by (cases "decisionAt w a index")
      (simp_all add: performInjection_decide enact_def decisionAt_def)
  have "iterateFields_loop performInjection t a n index (injected a w index) =
          iterateFields_loop performInjection t a n (Suc index) (injected a w (Suc index))"
    using lt step by (subst iterateFields_loop.simps) (simp add: Let_def)
  also have "\<dots> = (if k < n
            then iterateFields_loop performInjection t a n k (injected a w k)
            else Inr (None, injected a w n))"
    using Suc.hyps Suc.prems lt by (intro Suc.hyps(1)) auto
  finally show ?case .
qed

lemma stop_index_exists:
  "\<exists>k\<le>n. (\<forall>j<k. P j) \<and> (k < n \<longrightarrow> \<not> P k)" for P :: "nat \<Rightarrow> bool"
proof (cases "\<forall>j<n. P j")
  case True
  then show ?thesis by (intro exI [of _ n]) simp
next
  case False
  then obtain j where j: "j < n" "\<not> P j" by blast
  define k where "k = (LEAST j. \<not> P j)"
  have "\<not> P k" unfolding k_def using j(2) by (rule LeastI)
  moreover have "k \<le> j" unfolding k_def using j(2) by (rule Least_le)
  moreover have "\<forall>i<k. P i" unfolding k_def using not_less_Least by blast
  ultimately show ?thesis using j(1) by (intro exI [of _ k]) auto
qed

lemma enact_not_succeeds:
  "\<not> succeeds d \<Longrightarrow>
   (\<exists>pn. enact d p w = Inl pn) \<or> (\<exists>e. enact d p w = Inr (Some e, w))"
  by (cases d) (auto simp: enact_def)

lemma loop_stop:
  assumes "k < n" and "n = length (heap w a)" and "\<not> succeeds (decisionAt w a k)"
  shows "iterateFields_loop performInjection t a n k (injected a w k) =
           enact (decisionAt w a k) (pointAt t a (heap w a) k) (injected a w k)"
proof -
  have f: "fst (heap (injected a w k) a ! k) = fst (heap w a ! k)"
    using assms by (intro fst_nth_heap) simp_all
  have p: "\<lparr>elementType = t, field = (a, k),
            typeField = fst (heap (injected a w k) a ! k)\<rparr> = pointAt t a (heap w a) k"
    using f by (simp add: pointAt_def)
  have c: "performInjection (pointAt t a (heap w a) k) (injected a w k) =
             enact (decisionAt w a k) (pointAt t a (heap w a) k) (injected a w k)"
    by (simp add: performInjection_decide decisionAt_def pointAt_def)
  from assms(3) show ?thesis
    using assms(1) p c
    by (subst iterateFields_loop.simps, cases "decisionAt w a k")
      (simp_all add: Let_def enact_def)
qed

lemma realInjectInto_pointer:
  assumes "Kind t = KStruct" and "n = length (heap w a)" and "k \<le> n"
    and "\<forall>j<k. succeeds (decisionAt w a j)"
    and "k < n \<longrightarrow> \<not> succeeds (decisionAt w a k)"
  shows "realInjectInto (VPtr t (Some a)) hook w =
           (if k < n
            then enact (decisionAt w a k) (pointAt t a (heap w a) k) (injected a w k)
            else Inr (None, if hook
                            then performPostInjectionHook (VPtr t (Some a)) (injected a w n)
                            else injected a w n))"
proof -
  have l: "iterateFields_loop performInjection t a n 0 (injected a w 0) =
           (if k < n
            then iterateFields_loop performInjection t a n k (injected a w k)
            else Inr (None, injected a w n))"
    using assms by (intro loop_from) auto
  have i: "iterateFields (VPtr t (Some a)) performInjection w =
             iterateFields_loop performInjection t a n 0 (injected a w 0)"
    using assms(1,2) by (simp add: iterateFields_def)
  have ok: "isPointerToStruct (VPtr t (Some a)) = Inr True"
    using assms(1) by (simp add: isPointerToStruct_def getDereferencedType_def)
  show ?thesis
  proof (cases "k < n")
    case True
    with assms have ns: "\<not> succeeds (decisionAt w a k)" by simp
    from True l i loop_stop [OF True assms(2) ns, of t]
    have "iterateFields (VPtr t (Some a)) performInjection w =
            enact (decisionAt w a k) (pointAt t a (heap w a) k) (injected a w k)"
      by simp
    with ok True enact_not_succeeds [OF ns, of "pointAt t a (heap w a) k" "injected a w k"]
    show ?thesis by (auto simp: realInjectInto_def)
  next
    case False
    with l i ok show ?thesis by (simp add: realInjectInto_def)
  qed
qed

lemma realInjectInto_not_pointer:
  assumes "\<forall>t a. target = VPtr t (Some a) \<longrightarrow> Kind t \<noteq> KStruct"
  shows "(\<exists>pn. realInjectInto target hook w = Inl pn) \<or>
         realInjectInto target hook w = Inr (Some ErrNotPointerToStruct, w)"
proof (cases target)
  case (VPtr t ao)
  show ?thesis
  proof (cases ao)
    case None
    with VPtr show ?thesis
      by (simp add: realInjectInto_def isPointerToStruct_def getDereferencedType_def
          iterateFields_def)
  next
    case (Some a)
    with VPtr assms have "Kind t \<noteq> KStruct" by simp
    with VPtr show ?thesis
      by (simp add: realInjectInto_def isPointerToStruct_def getDereferencedType_def)
  qed
qed (simp_all add: realInjectInto_def isPointerToStruct_def getDereferencedType_def
    iterateFields_def)

subsection \<open>Injection into one target\<close>

lemma pointAt_simps [simp]:
  "elementType (pointAt t a obj i) = t"
  "field (pointAt t a obj i) = (a, i)"
  "typeField (pointAt t a obj i) = fst (obj ! i)"
  by (simp_all add: pointAt_def)

lemma isPostInjector_methodSet:
  "methodSet w' = methodSet w \<Longrightarrow> isPostInjector w' = isPostInjector w"
  by (simp add: isPostInjector_def fun_eq_iff split: option.splits)

lemma performPostInjectionHook_simps [simp]:
  "heap (performPostInjectionHook target w) = heap w"
  "container (performPostInjectionHook target w) = container w"
  "methodSet (performPostInjectionHook target w) = methodSet w"
  by (simp_all add: performPostInjectionHook_def)

lemma event_simps [simp]:
  "isFieldSet a (FieldSet b j x) = (b = a)"
  "isFieldSet a (HookCalled k) = False"
  "isHook (FieldSet b j x) = False"
  "isHook (HookCalled k) = True"
  by (simp_all add: isFieldSet_def isHook_def)

lemma injected_events_fields:
  "\<exists>evs. events (injected a w i) = events w @ evs \<and>
         (\<forall>e \<in> set evs. isFieldSet a e \<and> \<not> isHook e)"
proof -
  from injected_events [of a w i] obtain evs where
    e: "events (injected a w i) = events w @ evs"
    and f: "\<forall>e \<in> set evs. \<exists>j x. j < i \<and> e = FieldSet a j x \<and> decisionAt w a j = DAssign x"
    by blast
  from f have "\<forall>e \<in> set evs. isFieldSet a e \<and> \<not> isHook e" by fastforce
  with e show ?thesis by blast
qed

lemma performInjection_pointAt:
  "performInjection (pointAt t a (heap w a) j) w' =
     enact (decide (container w') (methodSet w') (fst (heap w a ! j)))
       (pointAt t a (heap w a) j) w'"
  by (simp add: performInjection_decide pointAt_def)

lemma performInjection_succeeds:
  "(\<exists>wj. performInjection (pointAt t a (heap w a) j) w = Inr (None, wj)) =
     succeeds (decisionAt w a j)"
  by (cases "decisionAt w a j")
    (auto simp: performInjection_pointAt enact_def decisionAt_def)

lemma performInjection_value:
  assumes "performInjection (pointAt t a (heap w a) j) w = Inr (None, wj)"
    and "j < length (heap w a)"
  shows "heap wj a ! j =
           (case decisionAt w a j of
              DAssign x \<Rightarrow> (fst (heap w a ! j), x)
            | _ \<Rightarrow> heap w a ! j)"
  using assms
  by (cases "decisionAt w a j")
    (auto simp: performInjection_pointAt enact_def decisionAt_def store_nth)

lemma performInjection_error:
  assumes "performInjection (pointAt t a (heap w a) i) w = Inr (Some err, wi)"
  shows "\<not> succeeds (decisionAt w a i)"
    and "enact (decisionAt w a i) (pointAt t a (heap w a) i) w' = Inr (Some err, w')"
  using assms
  by (cases "decisionAt w a i";
      auto simp: performInjection_pointAt enact_def decisionAt_def)+

lemmas inject_defs = performInjection_def performNamedInjection_def performAutoInjection_def
  Set_def CanSet_def parseFieldTag_def tagAutoInject_def Let_def

lemmas targets_defs = targetsWorld_def calledField_def depField_def availableField_def
  unavailableField_def laterField_def hookType_def simpleType_def

lemma targetsWorld_fields:
  "performInjection (pointAt hookType 1 (heap targetsWorld 1) 0) targetsWorld =
     Inr (None, targetsWorld)"
  "performInjection (pointAt hookType 1 (heap targetsWorld 1) 1) targetsWorld =
     Inr (None, store (1, 1) (VString ''ok'') targetsWorld)"
  "performInjection (pointAt simpleType 2 (heap targetsWorld 2) 0) targetsWorld =
     Inr (None, store (2, 0) (VString ''ok'') targetsWorld)"
  "performInjection (pointAt simpleType 2 (heap targetsWorld 2) 1) targetsWorld =
     Inr (Some (ErrMissingDependency ''Missing'' simpleType ''UnavailableString''),
          targetsWorld)"
  by (simp_all add: inject_defs targets_defs pointAt_def)

text \<open>
  C3: let the target be a pointer to a struct, let the injections of the fields before
  field \<open>i\<close> succeed and let that of field \<open>i\<close> return an error. Then \<open>InjectInto\<close> returns
  that error; every earlier field holds what its own injection gave it (no rollback);
  field \<open>i\<close> and the fields after it hold what they held before the call; the only
  effects of the call are assignments to earlier fields of the target; and no other
  object is touched.
\<close>

theorem InjectInto_first_failure:
  assumes "Kind t = KStruct" and "i < length (heap w a)"
    and "\<forall>j<i. \<exists>wj. performInjection (pointAt t a (heap w a) j) w = Inr (None, wj)"
    and "performInjection (pointAt t a (heap w a) i) w = Inr (Some err, wi)"
  shows "\<exists>w'. InjectInto (VPtr t (Some a)) w = Inr (Some err, w')
           \<and> (\<forall>j<i. \<forall>wj. performInjection (pointAt t a (heap w a) j) w = Inr (None, wj) \<longrightarrow>
                 heap w' a ! j = heap wj a ! j)
           \<and> (\<forall>j. i \<le> j \<and> j < length (heap w a) \<longrightarrow> heap w' a ! j = heap w a ! j)
           \<and> length (heap w' a) = length (heap w a)
           \<and> (\<forall>b. b \<noteq> a \<longrightarrow> heap w' b = heap w b)
           \<and> (\<exists>evs. events w' = events w @ evs \<and>
                 (\<forall>e \<in> set evs. \<exists>j x. j < i \<and> e = FieldSet a j x))"
proof -
  have s: "\<forall>j<i. succeeds (decisionAt w a j)"
    using assms(3) performInjection_succeeds by blast
  note f = performInjection_error [OF assms(4)]
  have "InjectInto (VPtr t (Some a)) w =
          enact (decisionAt w a i) (pointAt t a (heap w a) i) (injected a w i)"
    unfolding InjectInto_def
    using assms(1,2) s f(1)
    by (subst realInjectInto_pointer [where k = i and n = "length (heap w a)"]) auto
  with f(2) have r: "InjectInto (VPtr t (Some a)) w = Inr (Some err, injected a w i)"
    by simp
  have v: "\<forall>j<i. \<forall>wj. performInjection (pointAt t a (heap w a) j) w = Inr (None, wj) \<longrightarrow>
                 heap (injected a w i) a ! j = heap wj a ! j"
    using assms(2) by (auto simp: injected_nth performInjection_value)
  have u: "\<forall>j. i \<le> j \<and> j < length (heap w a) \<longrightarrow>
             heap (injected a w i) a ! j = heap w a ! j"
    by (simp add: injected_nth)
  from injected_events [of a w i]
  have e: "\<exists>evs. events (injected a w i) = events w @ evs \<and>
                 (\<forall>e \<in> set evs. \<exists>j x. j < i \<and> e = FieldSet a j x)"
    by blast
  from r v u e show ?thesis by (intro exI [of _ "injected a w i"]) simp
qed

theorem InjectInto_first_failure_witness:
  "Kind simpleType = KStruct \<and> 1 < length (heap targetsWorld 2)
   \<and> (\<exists>w'. InjectInto (VPtr simpleType (Some 2)) targetsWorld =
              Inr (Some (ErrMissingDependency ''Missing'' simpleType ''UnavailableString''),
                   w')
           \<and> heap w' 2 ! 0 = (availableField, VString ''ok'')
           \<and> heap w' 2 ! 1 = (unavailableField, VString '''')
           \<and> heap w' 2 ! 2 = (laterField, VString '''')
           \<and> heap w' 1 = heap targetsWorld 1)"
proof -
  have k: "Kind simpleType = KStruct" by (simp add: simpleType_def)
  have l: "1 < length (heap targetsWorld 2)" by (simp add: targetsWorld_def)
  have e: "\<forall>j<1. \<exists>wj. performInjection (pointAt simpleType 2 (heap targetsWorld 2) j)
                          targetsWorld = Inr (None, wj)"
    using targetsWorld_fields(3) by simp
  from InjectInto_first_failure [OF k l e targetsWorld_fields(4)]
  obtain w' where r: "InjectInto (VPtr simpleType (Some 2)) targetsWorld =
      Inr (Some (ErrMissingDependency ''Missing'' simpleType ''UnavailableString''), w')"
    and v: "\<forall>j<1. \<forall>wj. performInjection (pointAt simpleType 2 (heap targetsWorld 2) j)
                   targetsWorld = Inr (None, wj) \<longrightarrow> heap w' 2 ! j = heap wj 2 ! j"
    and u: "\<forall>j. 1 \<le> j \<and> j < length (heap targetsWorld 2) \<longrightarrow>
                heap w' 2 ! j = heap targetsWorld 2 ! j"
    and o: "\<forall>b. b \<noteq> 2 \<longrightarrow> heap w' b = heap targetsWorld b"
    by blast
  from v targetsWorld_fields(3)
  have "heap w' 2 ! 0 = heap (store (2, 0) (VString ''ok'') targetsWorld) 2 ! 0" by simp
  then have a: "heap w' 2 ! 0 = (availableField, VString ''ok'')"
    by (simp add: store_def targetsWorld_def)
  from u [rule_format, of 1] have b: "heap w' 2 ! 1 = (unavailableField, VString '''')"
    by (simp add: targetsWorld_def)
  from u [rule_format, of 2] have c: "heap w' 2 ! 2 = (laterField, VString '''')"
    by (simp add: targetsWorld_def)
  from o have d: "heap w' 1 = heap targetsWorld 1" by simp
  from k l r a b c d show ?thesis by blast
qed



subsection \<open>Injection into every registered instance\<close>

lemma partly_injected_refl: "partly_injected W W"
  by (simp add: partly_injected_def)

lemma partly_injected_length:
  "partly_injected W w \<Longrightarrow> length (heap w b) = length (heap W b)"
  unfolding partly_injected_def by (metis length_map)

lemma partly_injected_fst:
  "partly_injected W w \<Longrightarrow> j < length (heap W b) \<Longrightarrow> fst (heap w b ! j) = fst (heap W b ! j)"
  unfolding partly_injected_def by (intro fst_nth_heap) auto

lemma partly_injected_decision:
  "partly_injected W w \<Longrightarrow> j < length (heap W b) \<Longrightarrow> decisionAt w b j = decisionAt W b j"
  using partly_injected_fst [of W w j b]
  by (simp add: decisionAt_def partly_injected_def)

lemma partly_injected_step:
  assumes "partly_injected W w"
  shows "partly_injected W (injected a w i)"
proof -
  note len = partly_injected_length [OF assms]
  from assms obtain evs where e: "events w = events W @ evs" "\<forall>e \<in> set evs. \<not> isHook e"
    unfolding partly_injected_def by blast
  from injected_events_fields [of a w i] obtain evs' where
    e': "events (injected a w i) = events w @ evs'" "\<forall>e \<in> set evs'. \<not> isHook e"
    by blast
  have ev: "\<exists>evs. events (injected a w i) = events W @ evs \<and> (\<forall>e \<in> set evs. \<not> isHook e)"
    using e e' by (intro exI [of _ "evs @ evs'"]) auto
  have val: "heap (injected a w i) b ! j = heap W b ! j \<or>
         (\<exists>x. decisionAt W b j = DAssign x \<and>
              heap (injected a w i) b ! j = (fst (heap W b ! j), x))"
    if j: "j < length (heap W b)" for b j
  proof (cases "b = a")
    case False
    with assms j show ?thesis by (simp add: partly_injected_def)
  next
    case True
    from assms j have old: "heap w b ! j = heap W b ! j \<or>
         (\<exists>x. decisionAt W b j = DAssign x \<and> heap w b ! j = (fst (heap W b ! j), x))"
      by (simp add: partly_injected_def)
    from j len have j': "j < length (heap w a)" using True by simp
    show ?thesis
      using old True partly_injected_decision [OF assms j] partly_injected_fst [OF assms j]
      by (cases "decisionAt W a j") (auto simp: injected_nth [OF j'])
  qed
  from assms val ev show ?thesis by (simp add: partly_injected_def)
qed

lemma settled_after_injection:
  assumes "partly_injected W w"
  shows "settled W a (injected a w (length (heap W a)))"
proof -
  note len = partly_injected_length [OF assms]
  have "heap (injected a w (length (heap W a))) a ! j =
          heap (injected a W (length (heap W a))) a ! j"
    if j: "j < length (heap W a)" for j
  proof -
    from assms j have old: "heap w a ! j = heap W a ! j \<or>
         (\<exists>x. decisionAt W a j = DAssign x \<and> heap w a ! j = (fst (heap W a ! j), x))"
      by (simp add: partly_injected_def)
    from j len have j': "j < length (heap w a)" by simp
    show ?thesis
      using old j partly_injected_decision [OF assms j] partly_injected_fst [OF assms j]
      by (cases "decisionAt W a j") (auto simp: injected_nth [OF j'] injected_nth [OF j])
  qed
  then show ?thesis
    unfolding settled_def using len by (intro nth_equalityI) simp_all
qed

lemma settled_kept:
  assumes "partly_injected W w" and "settled W a w"
  shows "settled W a (injected b w i)"
proof (cases "b = a")
  case False
  with assms(2) show ?thesis by (simp add: settled_def)
next
  case True
  note len = partly_injected_length [OF assms(1)]
  have "heap (injected a w i) a ! j = heap w a ! j" if j: "j < length (heap W a)" for j
  proof -
    from j len have j': "j < length (heap w a)" by simp
    from assms(2) have "heap w a ! j = heap (injected a W (length (heap W a))) a ! j"
      by (simp add: settled_def)
    then show ?thesis
      using j partly_injected_decision [OF assms(1) j] partly_injected_fst [OF assms(1) j]
      by (cases "decisionAt W a j") (auto simp: injected_nth [OF j'] injected_nth [OF j])
  qed
  then have "heap (injected a w i) a = heap w a"
    using len by (intro nth_equalityI) simp_all
  with assms(2) True show ?thesis by (simp add: settled_def)
qed
lemma realInjectInto_not_pointer_uniform:
  assumes "\<forall>t a. target = VPtr t (Some a) \<longrightarrow> Kind t \<noteq> KStruct"
  shows "(\<exists>pn. \<forall>w. realInjectInto target hook w = Inl pn) \<or>
         (\<forall>w. realInjectInto target hook w = Inr (Some ErrNotPointerToStruct, w))"
proof (cases target)
  case (VPtr t ao)
  show ?thesis
  proof (cases ao)
    case None
    with VPtr show ?thesis
      by (simp add: realInjectInto_def isPointerToStruct_def getDereferencedType_def
          iterateFields_def)
  next
    case (Some a)
    with VPtr assms have "Kind t \<noteq> KStruct" by simp
    with VPtr show ?thesis
      by (simp add: realInjectInto_def isPointerToStruct_def getDereferencedType_def)
  qed
qed (simp_all add: realInjectInto_def isPointerToStruct_def getDereferencedType_def
    iterateFields_def)

text \<open>
  Whether the injection into a target panics, fails or succeeds, and with which error, is
  the same in every world that is partly injected from \<open>W\<close>.
\<close>

lemma target_outcome:
  "(\<exists>pn. \<forall>w. partly_injected W w \<longrightarrow> realInjectInto k False w = Inl pn)
   \<or> (\<exists>e. \<forall>w. partly_injected W w \<longrightarrow>
          (\<exists>w'. realInjectInto k False w = Inr (Some e, w') \<and> partly_injected W w' \<and>
                (\<forall>a. settled W a w \<longrightarrow> settled W a w')))
   \<or> (\<exists>t a. k = VPtr t (Some a) \<and>
          (\<forall>w. partly_injected W w \<longrightarrow>
             (\<exists>w'. realInjectInto k False w = Inr (None, w') \<and> partly_injected W w' \<and>
                   settled W a w' \<and> (\<forall>b. settled W b w \<longrightarrow> settled W b w'))))"
proof (cases "\<exists>t a. k = VPtr t (Some a) \<and> Kind t = KStruct")
  case False
  with realInjectInto_not_pointer_uniform [of k False]
  consider pn where "\<forall>w. realInjectInto k False w = Inl pn"
    | "\<forall>w. realInjectInto k False w = Inr (Some ErrNotPointerToStruct, w)"
    by blast
  then show ?thesis
  proof cases
    case 1
    then show ?thesis by blast
  next
    case 2
    then have "\<forall>w. partly_injected W w \<longrightarrow>
          (\<exists>w'. realInjectInto k False w = Inr (Some ErrNotPointerToStruct, w') \<and>
                partly_injected W w' \<and> (\<forall>a. settled W a w \<longrightarrow> settled W a w'))"
      by simp
    then show ?thesis by blast
  qed
next
  case True
  then obtain t a where k: "k = VPtr t (Some a)" and t: "Kind t = KStruct" by blast
  define n where "n = length (heap W a)"
  obtain i where i: "i \<le> n" "\<forall>j<i. succeeds (decisionAt W a j)"
    "i < n \<longrightarrow> \<not> succeeds (decisionAt W a i)"
    using stop_index_exists [of n "\<lambda>j. succeeds (decisionAt W a j)"] by blast
  have run: "realInjectInto k False w =
           (if i < n
            then enact (decisionAt W a i) (pointAt t a (heap W a) i) (injected a w i)
            else Inr (None, injected a w n))"
    if p: "partly_injected W w" for w
  proof -
    have len: "n = length (heap w a)"
      using partly_injected_length [OF p] by (simp add: n_def)
    have d: "decisionAt w a j = decisionAt W a j" if "j < n" for j
      using partly_injected_decision [OF p] that by (simp add: n_def)
    have pt: "pointAt t a (heap w a) i = pointAt t a (heap W a) i" if "i < n"
      using partly_injected_fst [OF p] that by (simp add: pointAt_def n_def)
    have "realInjectInto (VPtr t (Some a)) False w =
           (if i < n
            then enact (decisionAt w a i) (pointAt t a (heap w a) i) (injected a w i)
            else Inr (None, if False
                            then performPostInjectionHook (VPtr t (Some a)) (injected a w n)
                            else injected a w n))"
      using i d by (intro realInjectInto_pointer [OF t len]) auto
    with d pt k show ?thesis by auto
  qed
  show ?thesis
  proof (cases "i < n")
    case False
    have "\<forall>w. partly_injected W w \<longrightarrow>
             (\<exists>w'. realInjectInto k False w = Inr (None, w') \<and> partly_injected W w' \<and>
                   settled W a w' \<and> (\<forall>b. settled W b w \<longrightarrow> settled W b w'))"
    proof (intro allI impI)
      fix w
      assume p: "partly_injected W w"
      from run [OF p] False have "realInjectInto k False w = Inr (None, injected a w n)"
        by simp
      moreover have "partly_injected W (injected a w n)"
        using p by (rule partly_injected_step)
      moreover have "settled W a (injected a w n)"
        unfolding n_def using p by (rule settled_after_injection)
      moreover have "\<forall>b. settled W b w \<longrightarrow> settled W b (injected a w n)"
        using p settled_kept by blast
      ultimately show "\<exists>w'. realInjectInto k False w = Inr (None, w') \<and>
          partly_injected W w' \<and> settled W a w' \<and> (\<forall>b. settled W b w \<longrightarrow> settled W b w')"
        by blast
    qed
    with k show ?thesis by blast
  next
    case True
    with i have ns: "\<not> succeeds (decisionAt W a i)" by simp
    show ?thesis
    proof (cases "decisionAt W a i")
      case (DCrash pn)
      with run True have "\<forall>w. partly_injected W w \<longrightarrow> realInjectInto k False w = Inl pn"
        by (simp add: enact_def)
      then show ?thesis by blast
    next
      case (DMissingName nm)
      define e where "e = ErrMissingDependency nm t (sfName (fst (heap W a ! i)))"
      have "\<forall>w. partly_injected W w \<longrightarrow>
          (\<exists>w'. realInjectInto k False w = Inr (Some e, w') \<and> partly_injected W w' \<and>
                (\<forall>b. settled W b w \<longrightarrow> settled W b w'))"
        using run True DMissingName partly_injected_step settled_kept
        by (auto simp: enact_def e_def)
      then show ?thesis by blast
    next
      case (DMissingType ty)
      define e where "e = ErrMissingAutoinjected t (sfName (fst (heap W a ! i))) ty"
      have "\<forall>w. partly_injected W w \<longrightarrow>
          (\<exists>w'. realInjectInto k False w = Inr (Some e, w') \<and> partly_injected W w' \<and>
                (\<forall>b. settled W b w \<longrightarrow> settled W b w'))"
        using run True DMissingType partly_injected_step settled_kept
        by (auto simp: enact_def e_def)
      then show ?thesis by blast
    qed (use ns in simp_all)
  qed
qed

lemma EachElement_after_error:
  "EachElement keys injectKey (Some e, w) = Inr (Some e, w)"
  by (induction keys) (simp_all add: injectKey_def)

lemma first_pass:
  assumes "partly_injected W w"
    and "\<forall>k \<in> set keys. \<exists>r wk. realInjectInto k False W = Inr (r, wk)"
  shows "\<exists>r w'. EachElement keys injectKey (None, w) = Inr (r, w')
           \<and> partly_injected W w'
           \<and> (\<forall>a. settled W a w \<longrightarrow> settled W a w')
           \<and> (r = None \<longrightarrow>
                (\<forall>k \<in> set keys. \<exists>wk. realInjectInto k False W = Inr (None, wk)) \<and>
                (\<forall>t a. VPtr t (Some a) \<in> set keys \<longrightarrow> settled W a w'))
           \<and> (\<forall>e. r = Some e \<longrightarrow>
                (\<exists>k \<in> set keys. \<exists>wk. realInjectInto k False W = Inr (Some e, wk)))"
  using assms
proof (induction keys arbitrary: w)
  case Nil
  then show ?case by simp
next
  case (Cons k keys)
  note pW = partly_injected_refl [of W]
  from Cons.prems(2) obtain r0 wk0 where alone: "realInjectInto k False W = Inr (r0, wk0)"
    by auto
  from target_outcome [of W k]
  consider
    (crash) pn where "\<forall>w. partly_injected W w \<longrightarrow> realInjectInto k False w = Inl pn"
  | (fail) e where "\<forall>w. partly_injected W w \<longrightarrow>
          (\<exists>w'. realInjectInto k False w = Inr (Some e, w') \<and> partly_injected W w' \<and>
                (\<forall>a. settled W a w \<longrightarrow> settled W a w'))"
  | (ok) t a where "k = VPtr t (Some a)" "\<forall>w. partly_injected W w \<longrightarrow>
             (\<exists>w'. realInjectInto k False w = Inr (None, w') \<and> partly_injected W w' \<and>
                   settled W a w' \<and> (\<forall>b. settled W b w \<longrightarrow> settled W b w'))"
    by blast
  then show ?case
  proof cases
    case crash
    with pW alone show ?thesis by auto
  next
    case fail
    from fail pW obtain wk where a: "realInjectInto k False W = Inr (Some e, wk)" by blast
    from fail Cons.prems(1) obtain w' where
      s: "realInjectInto k False w = Inr (Some e, w')" "partly_injected W w'"
      "\<forall>a. settled W a w \<longrightarrow> settled W a w'"
      by blast
    have "EachElement (k # keys) injectKey (None, w) = Inr (Some e, w')"
      using s(1) by (simp add: injectKey_def EachElement_after_error)
    with s a show ?thesis by auto
  next
    case ok
    from ok pW obtain wk where a: "realInjectInto k False W = Inr (None, wk)" by blast
    from ok Cons.prems(1) obtain w1 where
      s: "realInjectInto k False w = Inr (None, w1)" "partly_injected W w1"
      "settled W a w1" "\<forall>b. settled W b w \<longrightarrow> settled W b w1"
      by blast
    from Cons.prems(2) have rest: "\<forall>k \<in> set keys. \<exists>r wk. realInjectInto k False W = Inr (r, wk)"
      by simp
    from Cons.IH [OF s(2) rest] obtain r w' where
      ih: "EachElement keys injectKey (None, w1) = Inr (r, w')" "partly_injected W w'"
      "\<forall>a. settled W a w1 \<longrightarrow> settled W a w'"
      "r = None \<longrightarrow>
         (\<forall>k \<in> set keys. \<exists>wk. realInjectInto k False W = Inr (None, wk)) \<and>
         (\<forall>t a. VPtr t (Some a) \<in> set keys \<longrightarrow> settled W a w')"
      "\<forall>e. r = Some e \<longrightarrow>
         (\<exists>k \<in> set keys. \<exists>wk. realInjectInto k False W = Inr (Some e, wk))"
      by blast
    have run: "EachElement (k # keys) injectKey (None, w) = Inr (r, w')"
      using s(1) ih(1) by (simp add: injectKey_def)
    have keep: "\<forall>a. settled W a w \<longrightarrow> settled W a w'" using s(4) ih(3) by blast
    have none: "r = None \<longrightarrow>
         (\<forall>k' \<in> set (k # keys). \<exists>wk. realInjectInto k' False W = Inr (None, wk)) \<and>
         (\<forall>t a. VPtr t (Some a) \<in> set (k # keys) \<longrightarrow> settled W a w')"
      using ih(4) a ok(1) s(3) ih(3) by auto
    have some: "\<forall>e. r = Some e \<longrightarrow>
         (\<exists>k' \<in> set (k # keys). \<exists>wk. realInjectInto k' False W = Inr (Some e, wk))"
      using ih(5) by auto
    from run ih(2) keep none some show ?thesis by blast
  qed
qed

lemma second_pass:
  "\<exists>w'. EachElement keys (\<lambda>key w2. Inr (performPostInjectionHook key w2)) w = Inr w'
        \<and> events w' = events w @ map HookCalled (filter (isPostInjector w) keys)
        \<and> heap w' = heap w \<and> container w' = container w \<and> methodSet w' = methodSet w"
proof (induction keys arbitrary: w)
  case Nil
  then show ?case by simp
next
  case (Cons k keys)
  define w1 where "w1 = performPostInjectionHook k w"
  have p: "isPostInjector w1 = isPostInjector w"
    by (rule isPostInjector_methodSet) (simp add: w1_def)
  from Cons [of w1] obtain w' where
    "EachElement keys (\<lambda>key w2. Inr (performPostInjectionHook key w2)) w1 = Inr w'"
    "events w' = events w1 @ map HookCalled (filter (isPostInjector w1) keys)"
    "heap w' = heap w1" "container w' = container w1" "methodSet w' = methodSet w1"
    by blast
  with p show ?case
    by (intro exI [of _ w']) (auto simp: w1_def performPostInjectionHook_def)
qed

lemma PerformInjections_passes:
  "PerformInjections order1 order2 w =
     (case EachElement order1 injectKey (None, w) of
        Inl p \<Rightarrow> Inl p
      | Inr (err, w1) \<Rightarrow>
          if err = None
          then (case EachElement order2
                       (\<lambda>key w2. Inr (performPostInjectionHook key w2)) w1 of
                  Inl p \<Rightarrow> Inl p
                | Inr w2 \<Rightarrow> Inr (err, w2))
          else Inr (err, w1))"
proof -
  have "(\<lambda>key (err, w1).
                if err = None
                then (case realInjectInto key False w1 of
                        Inl p \<Rightarrow> Inl p
                      | Inr (err', w2) \<Rightarrow> Inr (err', w2))
                else Inr (err, w1)) = injectKey"
    by (simp add: fun_eq_iff injectKey_def)
  then show ?thesis by (simp add: PerformInjections_def)
qed
lemma realInjectInto_success:
  assumes "realInjectInto (VPtr t (Some a)) hook w = Inr (None, wk)"
  shows "Kind t = KStruct" and "\<forall>j<length (heap w a). succeeds (decisionAt w a j)"
proof -
  show t: "Kind t = KStruct"
  proof (rule ccontr)
    assume "Kind t \<noteq> KStruct"
    then have "\<forall>t' a'. VPtr t (Some a) = VPtr t' (Some a') \<longrightarrow> Kind t' \<noteq> KStruct" by simp
    from realInjectInto_not_pointer [OF this, of hook w] assms show False by auto
  qed
  obtain i where i: "i \<le> length (heap w a)" "\<forall>j<i. succeeds (decisionAt w a j)"
    "i < length (heap w a) \<longrightarrow> \<not> succeeds (decisionAt w a i)"
    using stop_index_exists [of "length (heap w a)" "\<lambda>j. succeeds (decisionAt w a j)"]
    by blast
  have "\<not> i < length (heap w a)"
  proof
    assume lt: "i < length (heap w a)"
    with i have "\<not> succeeds (decisionAt w a i)" by simp
    from enact_not_succeeds [OF this, of "pointAt t a (heap w a) i" "injected a w i"]
      realInjectInto_pointer [OF t refl i, of hook] lt assms
    show False by auto
  qed
  with i show "\<forall>j<length (heap w a). succeeds (decisionAt w a j)" by simp
qed






text \<open>
  C1, amended: let the two loops visit the Injectable Set in any orders, let \<open>A\<close> and \<open>B\<close>
  be pointers in the set, let a settable field of \<open>A\<close>'s object carry a tag for which the
  container holds \<open>B\<close> (under the tag's name, or, for an automatic tag, under the field's
  declared type) and a settable field of \<open>B\<close>'s object one for which it holds \<open>A\<close>, and
  let the injection into every instance of the set, taken alone, succeed. Then
  \<open>PerformInjections\<close> returns without error, and afterwards \<open>A\<close>'s field holds \<open>B\<close> and
  \<open>B\<close>'s field holds \<open>A\<close>.
\<close>

theorem mutual_injection:
  assumes "iteration_order (possibleInjectionSet (container w)) order1"
    and "iteration_order (possibleInjectionSet (container w)) order2"
    and "VPtr tA (Some a) \<in> dom (set' (possibleInjectionSet (container w)))"
    and "VPtr tB (Some b) \<in> dom (set' (possibleInjectionSet (container w)))"
    and "\<forall>k \<in> dom (set' (possibleInjectionSet (container w))).
           \<exists>wk. realInjectInto k False w = Inr (None, wk)"
    and "i < length (heap w a)" and "sfExported (fst (heap w a ! i))"
    and "parseFieldTag (sfTag (fst (heap w a ! i))) = Some tagA"
    and "(if autoInject tagA
          then dependenciesByType (container w) (Some (sfType (fst (heap w a ! i))))
          else dependenciesByName (container w) (dependencyName tagA)) =
         Some (VPtr tB (Some b))"
    and "j < length (heap w b)" and "sfExported (fst (heap w b ! j))"
    and "parseFieldTag (sfTag (fst (heap w b ! j))) = Some tagB"
    and "(if autoInject tagB
          then dependenciesByType (container w) (Some (sfType (fst (heap w b ! j))))
          else dependenciesByName (container w) (dependencyName tagB)) =
         Some (VPtr tA (Some a))"
  shows "\<exists>w'. PerformInjections order1 order2 w = Inr (None, w')
           \<and> snd (heap w' a ! i) = VPtr tB (Some b)
           \<and> snd (heap w' b ! j) = VPtr tA (Some a)"
proof -
  let ?S = "dom (set' (possibleInjectionSet (container w)))"
  from assms(1) have o1: "set order1 = ?S" by (simp add: iteration_order_def)
  with assms(5) have all: "\<forall>k \<in> set order1. \<exists>wk. realInjectInto k False w = Inr (None, wk)"
    by simp
  then have np: "\<forall>k \<in> set order1. \<exists>r wk. realInjectInto k False w = Inr (r, wk)" by blast
  from first_pass [OF partly_injected_refl np] obtain r w1 where
    p1: "EachElement order1 injectKey (None, w) = Inr (r, w1)"
    and none: "r = None \<longrightarrow> (\<forall>t a. VPtr t (Some a) \<in> set order1 \<longrightarrow> settled w a w1)"
    and some: "\<forall>e. r = Some e \<longrightarrow>
                (\<exists>k \<in> set order1. \<exists>wk. realInjectInto k False w = Inr (Some e, wk))"
    by blast
  have r: "r = None"
  proof (cases r)
    case (Some e)
    with some obtain k wk where k: "k \<in> set order1"
      and f: "realInjectInto k False w = Inr (Some e, wk)"
      by auto
    from all k obtain wk' where "realInjectInto k False w = Inr (None, wk')" by blast
    with f show ?thesis by simp
  qed simp
  from second_pass [of order2 w1] obtain w2 where
    p2: "EachElement order2 (\<lambda>key w2. Inr (performPostInjectionHook key w2)) w1 = Inr w2"
    and h2: "heap w2 = heap w1"
    by blast
  have run: "PerformInjections order1 order2 w = Inr (None, w2)"
    using p1 p2 r by (simp add: PerformInjections_passes)
  have field: "snd (heap w2 c ! n) = x"
    if c: "VPtr t (Some c) \<in> ?S" and n: "n < length (heap w c)"
      and ex: "sfExported (fst (heap w c ! n))"
      and tg: "parseFieldTag (sfTag (fst (heap w c ! n))) = Some tag"
      and dep: "(if autoInject tag
          then dependenciesByType (container w) (Some (sfType (fst (heap w c ! n))))
          else dependenciesByName (container w) (dependencyName tag)) = Some x"
    for t c n tag x
  proof -
    from c assms(5) obtain wk where "realInjectInto (VPtr t (Some c)) False w = Inr (None, wk)"
      by blast
    from realInjectInto_success(2) [OF this] n have s: "succeeds (decisionAt w c n)" by simp
    have "decisionAt w c n = settable (methodSet w) (sfType (fst (heap w c ! n))) x"
      using ex tg dep by (auto simp: decisionAt_def decide_def split: if_splits)
    with s have d: "decisionAt w c n = DAssign x"
      by (auto simp: settable_def split: option.splits if_splits)
    from c o1 none r have "settled w c w1" by simp
    with h2 have "heap w2 c ! n = heap (injected c w (length (heap w c))) c ! n"
      by (simp add: settled_def)
    with n d show ?thesis by (simp add: injected_nth)
  qed
  from field [OF assms(3) assms(6-9)] field [OF assms(4) assms(10-13)] run
  show ?thesis by blast
qed


subsection \<open>The properties on the package's test scenarios\<close>

lemmas circular_defs = circularStart_def circularWorld_def failingWorld_def sOne_def sTwo_def
  sMissing_def sHook_def oneType_def twoType_def missingType_def hookType_def calledField_def
  NewContainer_def newInterfaceSet_def

lemmas run_defs = realInjectInto_def isPointerToStruct_def getDereferencedType_def
  iterateFields_def iterateFields_loop.simps inject_defs store_def
  performPostInjectionHook_def isPostInjector_def

lemma circularWorld_built:
  "AddAll [(sOne, ''1''), (sTwo, ''2''), (sHook, '''')] circularStart = Inr circularWorld"
  by (simp add: Add_defs circular_defs)

lemma failingWorld_built:
  "AddAll [(sOne, ''1''), (sTwo, ''2''), (sMissing, ''''), (sHook, '''')] circularStart =
     Inr failingWorld"
  by (simp add: Add_defs circular_defs)

lemma circularWorld_set:
  "dom (set' (possibleInjectionSet (container circularWorld))) = {sOne, sTwo, sHook}"
  by (auto simp: circularWorld_def)

lemma failingWorld_set:
  "dom (set' (possibleInjectionSet (container failingWorld))) =
     {sOne, sTwo, sMissing, sHook}"
  by (auto simp: failingWorld_def)

lemma circularWorld_alone:
  "realInjectInto sOne False circularWorld = Inr (None, store (1, 0) sTwo circularWorld)"
  "realInjectInto sTwo False circularWorld = Inr (None, store (2, 0) sOne circularWorld)"
  "realInjectInto sHook False circularWorld = Inr (None, circularWorld)"
  by (simp_all add: run_defs circular_defs)


lemma orders:
  "iteration_order (possibleInjectionSet (container circularWorld)) [sTwo, sHook, sOne]"
  "iteration_order (possibleInjectionSet (container circularWorld)) [sOne, sTwo, sHook]"
  "iteration_order (possibleInjectionSet (container failingWorld))
     [sOne, sTwo, sMissing, sHook]"
  "iteration_order (possibleInjectionSet (container failingWorld))
     [sHook, sTwo, sOne, sMissing]"
  unfolding iteration_order_def circularWorld_set failingWorld_set
  by (auto simp: sOne_def sTwo_def sMissing_def sHook_def oneType_def twoType_def
      missingType_def hookType_def)
text \<open>
  C1, as stated, fails: register the two structs that name each other, together with
  the struct whose field names a dependency nobody registered. Each of the first two
  carries a tagged field for which the container holds the other, yet
  \<open>PerformInjections\<close> returns the third instance's error.
\<close>

theorem mutual_injection_counterexample:
  "AddAll [(sOne, ''1''), (sTwo, ''2''), (sMissing, ''''), (sHook, '''')] circularStart =
     Inr failingWorld
   \<and> iteration_order (possibleInjectionSet (container failingWorld))
       [sOne, sTwo, sMissing, sHook]
   \<and> fst (heap failingWorld 1 ! 0) = StructField ''Two'' (TPtr twoType) ''2'' True
   \<and> dependenciesByName (container failingWorld) ''2'' = Some sTwo
   \<and> fst (heap failingWorld 2 ! 0) = StructField ''One'' (TPtr oneType) ''1'' True
   \<and> dependenciesByName (container failingWorld) ''1'' = Some sOne
   \<and> map_sum id fst
       (PerformInjections [sOne, sTwo, sMissing, sHook] [sOne, sTwo, sMissing, sHook]
          failingWorld) =
     Inr (Some (ErrMissingDependency ''Missing'' missingType ''Missing''))"
proof -
  have "map_sum id fst
       (PerformInjections [sOne, sTwo, sMissing, sHook] [sOne, sTwo, sMissing, sHook]
          failingWorld) =
     Inr (Some (ErrMissingDependency ''Missing'' missingType ''Missing''))"
    by (simp add: PerformInjections_def run_defs circular_defs)
  moreover have "fst (heap failingWorld 1 ! 0) = StructField ''Two'' (TPtr twoType) ''2'' True"
    and "dependenciesByName (container failingWorld) ''2'' = Some sTwo"
    and "fst (heap failingWorld 2 ! 0) = StructField ''One'' (TPtr oneType) ''1'' True"
    and "dependenciesByName (container failingWorld) ''1'' = Some sOne"
    by (simp_all add: failingWorld_def circularStart_def)
  ultimately show ?thesis using failingWorld_built orders(3) by blast
qed

theorem mutual_injection_witness:
  "AddAll [(sOne, ''1''), (sTwo, ''2''), (sHook, '''')] circularStart = Inr circularWorld
   \<and> (\<exists>w'. PerformInjections [sTwo, sHook, sOne] [sOne, sTwo, sHook] circularWorld =
              Inr (None, w')
           \<and> snd (heap w' 1 ! 0) = sTwo \<and> snd (heap w' 2 ! 0) = sOne)"
proof -
  have all: "\<forall>k \<in> dom (set' (possibleInjectionSet (container circularWorld))).
               \<exists>wk. realInjectInto k False circularWorld = Inr (None, wk)"
    unfolding circularWorld_set using circularWorld_alone by blast
  have inA: "VPtr oneType (Some 1) \<in> dom (set' (possibleInjectionSet (container circularWorld)))"
    and inB: "VPtr twoType (Some 2) \<in> dom (set' (possibleInjectionSet (container circularWorld)))"
    unfolding circularWorld_set by (simp_all add: sOne_def sTwo_def)
  have tag: "parseFieldTag ''2'' = Some \<lparr>dependencyName = ''2'', autoInject = False\<rparr>"
    "parseFieldTag ''1'' = Some \<lparr>dependencyName = ''1'', autoInject = False\<rparr>"
    by (simp_all add: parseFieldTag_def tagAutoInject_def)
  have a: "0 < length (heap circularWorld 1)" "sfExported (fst (heap circularWorld 1 ! 0))"
    "parseFieldTag (sfTag (fst (heap circularWorld 1 ! 0))) =
       Some \<lparr>dependencyName = ''2'', autoInject = False\<rparr>"
    "(if autoInject \<lparr>dependencyName = ''2'', autoInject = False\<rparr>
      then dependenciesByType (container circularWorld)
             (Some (sfType (fst (heap circularWorld 1 ! 0))))
      else dependenciesByName (container circularWorld)
             (dependencyName \<lparr>dependencyName = ''2'', autoInject = False\<rparr>)) =
     Some (VPtr twoType (Some 2))"
    using tag by (simp_all add: circularWorld_def circularStart_def sTwo_def)
  have b: "0 < length (heap circularWorld 2)" "sfExported (fst (heap circularWorld 2 ! 0))"
    "parseFieldTag (sfTag (fst (heap circularWorld 2 ! 0))) =
       Some \<lparr>dependencyName = ''1'', autoInject = False\<rparr>"
    "(if autoInject \<lparr>dependencyName = ''1'', autoInject = False\<rparr>
      then dependenciesByType (container circularWorld)
             (Some (sfType (fst (heap circularWorld 2 ! 0))))
      else dependenciesByName (container circularWorld)
             (dependencyName \<lparr>dependencyName = ''1'', autoInject = False\<rparr>)) =
     Some (VPtr oneType (Some 1))"
    using tag by (simp_all add: circularWorld_def circularStart_def sOne_def)
  from mutual_injection [OF orders(1) orders(2) inA inB all a b]
  have "\<exists>w'. PerformInjections [sTwo, sHook, sOne] [sOne, sTwo, sHook] circularWorld =
              Inr (None, w')
           \<and> snd (heap w' 1 ! 0) = sTwo \<and> snd (heap w' 2 ! 0) = sOne"
    by (simp add: sOne_def sTwo_def)
  with circularWorld_built show ?thesis by blast
qed



end
